theory Spec2Isabelle
  imports Complex_Main "HOL-Library.AList" "HOL-Library.Multiset"
begin

section \<open>Voorraadbeheer: batches, products and LIFO depletion\<close>

text \<open>
  The source is \<^verbatim>\<open>src/Voorraadbeheer.py\<close>. Quantities and demands are Python
  integers (\<^typ>\<open>int\<close>). The three cost figures are Python floats, each modelled by the
  \<^typ>\<open>real\<close> number it denotes. \<^verbatim>\<open>calculate_holding_cost\<close>, which accumulates floats in
  a loop, rounds every operation as the floating-point arithmetic does; the one product of
  \<^verbatim>\<open>fulfill_demand\<close> and the running totals of \<^verbatim>\<open>simulate_day\<close> are written as the
  product and the sum of the same operands, without the rounding. Methods that mutate
  \<^verbatim>\<open>self\<close> return the updated object.
\<close>

subsection \<open>Batch and Product\<close>

record batch =
  quantity :: int
  cost_per_unit :: real

record product =
  product_name :: string
  holding_cost :: real
  stockout_penalty :: real
  batches :: "batch list"

text \<open>\<^verbatim>\<open>Product.__init__\<close>: a product starts with no batches.\<close>

definition Product :: "string \<Rightarrow> real \<Rightarrow> real \<Rightarrow> product" where
  "Product name h s =
     \<lparr>product_name = name, holding_cost = h, stockout_penalty = s, batches = []\<rparr>"

text \<open>\<^verbatim>\<open>Product.add_batch\<close>: append a new batch at the tail, with no check of the quantity.\<close>

definition add_batch :: "product \<Rightarrow> int \<Rightarrow> real \<Rightarrow> product" where
  "add_batch p q c = p\<lparr>batches := batches p @ [\<lparr>quantity = q, cost_per_unit = c\<rparr>]\<rparr>"

subsection \<open>The loop of fulfill\_demand\<close>

text \<open>
  The loop state is the pair of \<^verbatim>\<open>fulfilled\<close> and \<^verbatim>\<open>self.batches\<close>.
  \<open>loop_guard\<close> is the \<^verbatim>\<open>while\<close> condition and \<open>loop_body\<close> one pass through the
  body; \<^verbatim>\<open>self.batches[-1]\<close> is \<^term>\<open>last\<close> and \<^verbatim>\<open>pop()\<close> is \<^term>\<open>butlast\<close>, both
  only reached when the sequence is not empty.
\<close>

definition loop_guard :: "int \<Rightarrow> int \<times> batch list \<Rightarrow> bool" where
  "loop_guard demand s = (fst s < demand \<and> snd s \<noteq> [])"

definition loop_body :: "int \<Rightarrow> int \<times> batch list \<Rightarrow> int \<times> batch list" where
  "loop_body demand s =
     (let fulfilled = fst s; bs = snd s; last_batch = last bs in
      if quantity last_batch \<ge> demand - fulfilled then
        (let last_batch' = last_batch\<lparr>quantity := quantity last_batch - (demand - fulfilled)\<rparr>
         in (demand,
             if quantity last_batch' = 0 then butlast bs else butlast bs @ [last_batch']))
      else (fulfilled + quantity last_batch, butlast bs))"

function fulfill_loop :: "int \<Rightarrow> int \<times> batch list \<Rightarrow> int \<times> batch list" where
  "fulfill_loop demand s =
     (if loop_guard demand s then fulfill_loop demand (loop_body demand s) else s)"
  by pat_completeness auto
termination
  by (relation "measure (\<lambda>(d, s). length (snd s) + (if fst s < d then 1 else 0))")
     (auto simp: loop_guard_def loop_body_def Let_def)

declare fulfill_loop.simps [simp del]

text \<open>The number of passes through the loop body, by the same recursion.\<close>

function loop_iterations :: "int \<Rightarrow> int \<times> batch list \<Rightarrow> nat" where
  "loop_iterations demand s =
     (if loop_guard demand s then Suc (loop_iterations demand (loop_body demand s)) else 0)"
  by pat_completeness auto
termination
  by (relation "measure (\<lambda>(d, s). length (snd s) + (if fst s < d then 1 else 0))")
     (auto simp: loop_guard_def loop_body_def Let_def)

declare loop_iterations.simps [simp del]

text \<open>
  \<^verbatim>\<open>Product.fulfill_demand\<close>: the stockout cost returned, and the product after the call.
\<close>

definition fulfill_demand :: "product \<Rightarrow> int \<Rightarrow> real \<times> product" where
  "fulfill_demand p demand =
     (let r = fulfill_loop demand (0, batches p);
          fulfilled = fst r;
          p' = p\<lparr>batches := snd r\<rparr>
      in if fulfilled < demand
         then (of_int (demand - fulfilled) * stockout_penalty p', p')
         else (0, p'))"

subsection \<open>Floating-point arithmetic\<close>

text \<open>
  A Python float is an IEEE 754 binary64 number. The result of an operation on floats is
  the exact result rounded to the nearest float, a tie going to the even significand:
  \<open>round_float\<close>. A float has 53 significant bits, so the spacing of the floats around
  \<open>x\<close> is 2 to the power \<open>float_exponent x - 52\<close>, where \<open>float_exponent x\<close> is the
  exponent \<open>e\<close> with \<open>2^e \<le> \<bar>x\<bar> < 2^(e+1)\<close>, and never less than \<open>2^-1074\<close>, the
  spacing of the subnormal floats. Results beyond the largest float, where Python gives
  \<^verbatim>\<open>inf\<close> (or raises \<^verbatim>\<open>OverflowError\<close>, for an integer too large for a float), are
  outside the model. \<open>float_of_int\<close> is the conversion of the integer operand in
  \<^verbatim>\<open>int * float\<close>.
\<close>

fun bit_length :: "nat \<Rightarrow> nat" where
  "bit_length n = (if n = 0 then 0 else Suc (bit_length (n div 2)))"

declare bit_length.simps [simp del]

definition pow2 :: "int \<Rightarrow> real" where
  "pow2 e = (if 0 \<le> e then 2 ^ nat e else 1 / 2 ^ nat (- e))"

definition float_exponent :: "real \<Rightarrow> int" where
  "float_exponent x =
     (if 1 \<le> \<bar>x\<bar> then int (bit_length (nat \<lfloor>\<bar>x\<bar>\<rfloor>)) - 1
      else - int (bit_length (nat (\<lceil>1 / \<bar>x\<bar>\<rceil> - 1))))"

definition round_half_even :: "real \<Rightarrow> int" where
  "round_half_even x =
     (let n = \<lfloor>x\<rfloor>; r = x - of_int n
      in if r < 1 / 2 then n else if 1 / 2 < r then n + 1
         else if even n then n else n + 1)"

definition round_float :: "real \<Rightarrow> real" where
  "round_float x =
     (if x = 0 then 0
      else (let ulp = pow2 (max (float_exponent x) (- 1022) - 52)
            in of_int (round_half_even (x / ulp)) * ulp))"

definition float_of_int :: "int \<Rightarrow> real" where
  "float_of_int i = round_float (of_int i)"

definition float_add :: "real \<Rightarrow> real \<Rightarrow> real" where
  "float_add x y = round_float (x + y)"

definition float_mul :: "real \<Rightarrow> real \<Rightarrow> real" where
  "float_mul x y = round_float (x * y)"

text \<open>
  \<^verbatim>\<open>Product.calculate_holding_cost\<close>: the accumulating \<^verbatim>\<open>for\<close> loop, from the integer 0,
  each pass a float product and a float sum.
\<close>

definition calculate_holding_cost :: "product \<Rightarrow> real" where
  "calculate_holding_cost p =
     fold (\<lambda>b total. float_add total (float_mul (float_of_int (quantity b)) (holding_cost p)))
          (batches p) 0"

subsection \<open>Python's text of an integer\<close>

text \<open>
  \<^verbatim>\<open>str(n)\<close> of an integer is its decimal numeral, with a minus sign when negative.
  \<open>int_of_str\<close> is \<^verbatim>\<open>int(s)\<close> on the spellings \<^verbatim>\<open>str\<close> produces (an optional sign
  and decimal digits); \<open>None\<close> is the \<^verbatim>\<open>ValueError\<close>. The other spellings Python reads
  (blanks around the numeral, underscores, non-ASCII digits) are not modelled.
\<close>

definition digit_char :: "nat \<Rightarrow> char" where
  "digit_char n = char_of (48 + n)"

fun str_nat :: "nat \<Rightarrow> string" where
  "str_nat n = (if n < 10 then [digit_char n] else str_nat (n div 10) @ [digit_char (n mod 10)])"

declare str_nat.simps [simp del]

definition str_int :: "int \<Rightarrow> string" where
  "str_int i = (if i < 0 then CHR ''-'' # str_nat (nat (- i)) else str_nat (nat i))"

definition is_digit :: "char \<Rightarrow> bool" where
  "is_digit c = (48 \<le> (of_char c :: nat) \<and> (of_char c :: nat) \<le> 57)"

definition nat_of_digits :: "string \<Rightarrow> nat option" where
  "nat_of_digits s =
     (if s \<noteq> [] \<and> list_all is_digit s
      then Some (foldl (\<lambda>a c. 10 * a + (of_char c - 48)) 0 s) else None)"

definition int_of_str :: "string \<Rightarrow> int option" where
  "int_of_str s =
     (case s of
        [] \<Rightarrow> None
      | c # cs \<Rightarrow>
          if c = CHR ''-'' then map_option (\<lambda>n. - int n) (nat_of_digits cs)
          else if c = CHR ''+'' then map_option int (nat_of_digits cs)
          else map_option int (nat_of_digits s))"

subsection \<open>InventoryManager\<close>

text \<open>
  \<^verbatim>\<open>self.products\<close> is a Python dict, which keeps its keys in insertion order: an
  association list. \<^verbatim>\<open>name in self.products\<close> is \<^term>\<open>map_of ps name \<noteq> None\<close>, the
  assignment \<^verbatim>\<open>self.products[name] = v\<close> is \<^const>\<open>AList.update\<close> (in place for a key
  that is there, at the end for a new one), and a method that mutates the product stored
  under a key is \<^const>\<open>AList.map_entry\<close>. Each method returns the line it prints, if any,
  and the manager after the call.
\<close>

record inventory_manager =
  products :: "(string \<times> product) list"

definition InventoryManager :: inventory_manager where
  "InventoryManager = \<lparr>products = []\<rparr>"

definition add_product ::
  "inventory_manager \<Rightarrow> string \<Rightarrow> real \<Rightarrow> real \<Rightarrow> string \<times> inventory_manager" where
  "add_product m name h s =
     (if map_of (products m) name \<noteq> None
      then (''Product '' @ name @ '' already exists.'', m)
      else (''Product '' @ name @ '' added.'',
            m\<lparr>products := AList.update name (Product name h s) (products m)\<rparr>))"

definition restock_product ::
  "inventory_manager \<Rightarrow> string \<Rightarrow> int \<Rightarrow> real \<Rightarrow> string \<times> inventory_manager" where
  "restock_product m name q c =
     (if map_of (products m) name = None
      then (''Product '' @ name @ '' not found'', m)
      else (''Restocked '' @ name @ '' with '' @ str_int q @ '' units.'',
            m\<lparr>products := AList.map_entry name (\<lambda>p. add_batch p q c) (products m)\<rparr>))"



subsection \<open>CSV persistence\<close>

text \<open>
  A file is the list of its rows, each row the list of its fields as text: what
  \<^verbatim>\<open>csv.writer\<close> is given, after \<^verbatim>\<open>str\<close> of every field that is not a string, and what
  \<^verbatim>\<open>csv.reader\<close> yields. The csv module quotes a field that holds a comma, a quote or a
  line break and undoes the quoting on reading, so the rows written are the rows read,
  up to the text layer of the file: \<^verbatim>\<open>save_to_csv\<close> opens the file with
  \<^verbatim>\<open>newline=''\<close>, which writes every character as it is, while \<^verbatim>\<open>load_from_csv\<close>
  opens it with the default \<^verbatim>\<open>open(filename, 'r')\<close>, whose universal-newlines mode
  turns every CR LF and every other CR of the file into LF before the reader sees the
  text, also inside a quoted field. \<open>universal_newlines\<close> is that translation on one
  field, \<open>read_text_mode\<close> on a file.

  The text of a floating-point number (\<^verbatim>\<open>str\<close> of a float, and \<^verbatim>\<open>float\<close> of a string,
  \<open>None\<close> for its \<^verbatim>\<open>ValueError\<close>) is not modelled: the two conversions are parameters.
\<close>

record float_text =
  str_float :: "real \<Rightarrow> string"
  float_of_str :: "string \<Rightarrow> real option"

type_synonym csv_file = "string list list"

definition csv_header :: "string list" where
  "csv_header = [''product_name'', ''batch_quantity'', ''batch_cost_per_unit'']"

text \<open>
  \<^verbatim>\<open>save_to_csv\<close>: the rows written when the file opens. When \<^verbatim>\<open>open\<close> raises
  \<^verbatim>\<open>IOError\<close> nothing is written and the error is printed; the manager is not changed on
  either path.
\<close>

definition save_to_csv :: "float_text \<Rightarrow> inventory_manager \<Rightarrow> csv_file" where
  "save_to_csv ft m =
     csv_header #
     concat (map (\<lambda>entry.
               map (\<lambda>b. [product_name (snd entry), str_int (quantity b),
                         str_float ft (cost_per_unit b)])
                   (batches (snd entry)))
             (products m))"

fun universal_newlines :: "string \<Rightarrow> string" where
  "universal_newlines [] = []"
| "universal_newlines [c] = (if c = CHR 0x0D then [CHR 0x0A] else [c])"
| "universal_newlines (c # d # cs) =
     (if c = CHR 0x0D
      then (if d = CHR 0x0A then CHR 0x0A # universal_newlines cs
            else CHR 0x0A # universal_newlines (d # cs))
      else c # universal_newlines (d # cs))"

definition read_text_mode :: "csv_file \<Rightarrow> csv_file" where
  "read_text_mode rows = map (map universal_newlines) rows"

text \<open>
  \<^verbatim>\<open>load_from_csv\<close>. \<open>load_rows\<close> is the \<^verbatim>\<open>for row in reader\<close> loop; its first
  component is False when a row raised (a row that does not have three fields, or a
  quantity or cost that does not parse, in a row of a known product), which ends the loop
  with the batches loaded so far in place. The argument \<open>None\<close> of \<open>load_from_csv\<close> is a
  file that is not there; a file with no row at all fails at \<^verbatim>\<open>next(reader)\<close>.
\<close>

datatype load_outcome = Loaded | File_not_found | Read_failed

fun load_rows ::
  "float_text \<Rightarrow> csv_file \<Rightarrow> (string \<times> product) list \<Rightarrow> bool \<times> (string \<times> product) list" where
  "load_rows ft [] ps = (True, ps)"
| "load_rows ft (row # rows) ps =
     (case row of
        [name, q_text, c_text] \<Rightarrow>
          (if map_of ps name \<noteq> None
           then (case int_of_str q_text of
                   None \<Rightarrow> (False, ps)
                 | Some q \<Rightarrow>
                     (case float_of_str ft c_text of
                        None \<Rightarrow> (False, ps)
                      | Some c \<Rightarrow>
                          load_rows ft rows (AList.map_entry name (\<lambda>p. add_batch p q c) ps)))
           else load_rows ft rows ps)
      | _ \<Rightarrow> (False, ps))"

definition load_from_csv ::
  "float_text \<Rightarrow> inventory_manager \<Rightarrow> csv_file option \<Rightarrow> load_outcome \<times> inventory_manager" where
  "load_from_csv ft m file =
     (case file of
        None \<Rightarrow> (File_not_found, m)
      | Some [] \<Rightarrow> (Read_failed, m)
      | Some (header # rows) \<Rightarrow>
          (let r = load_rows ft rows (products m)
           in (if fst r then Loaded else Read_failed, m\<lparr>products := snd r\<rparr>)))"

subsection \<open>Notions used to state the properties\<close>

definition total_quantity :: "batch list \<Rightarrow> int" where
  "total_quantity bs = sum_list (map quantity bs)"

text \<open>A sequence of \<^verbatim>\<open>add_batch\<close> calls, given as the list of their arguments.\<close>

definition add_batches :: "product \<Rightarrow> (int \<times> real) list \<Rightarrow> product" where
  "add_batches p rs = foldl (\<lambda>p' (q, c). add_batch p' q c) p rs"

definition no_empty_batch :: "product \<Rightarrow> bool" where
  "no_empty_batch p = list_all (\<lambda>b. quantity b \<noteq> 0) (batches p)"

text \<open>
  The product of the spec's concrete scenario: Widget, restocked with 5 units at 2.0 and
  then 3 units at 2.5.
\<close>

definition widget :: product where
  "widget = add_batch (add_batch (Product ''Widget'' 1 10) 5 2) 3 (5 / 2)"

text \<open>
  The float that the literal \<^verbatim>\<open>0.1\<close> denotes.
\<close>

definition float_tenth :: real where
  "float_tenth = round_float (1 / 10)"

text \<open>
  The manager that \<^verbatim>\<open>main()\<close> builds: Laptop and Smartphone, registered and restocked
  twice each.
\<close>

definition main_manager :: inventory_manager where
  "main_manager =
     snd (restock_product (snd (restock_product (snd (restock_product (snd (restock_product
       (snd (add_product (snd (add_product InventoryManager ''Laptop'' (1 / 2) 50))
          ''Smartphone'' (1 / 5) 30))
       ''Laptop'' 10 800)) ''Laptop'' 15 820)) ''Smartphone'' 30 450)) ''Smartphone'' 25 460)"

text \<open>
  The row \<^verbatim>\<open>save_to_csv\<close> writes for one batch, and the second manager of the round trip:
  the same products, registered under the same names, each with no batches.
\<close>

definition batch_row :: "float_text \<Rightarrow> string \<Rightarrow> batch \<Rightarrow> string list" where
  "batch_row ft name b = [name, str_int (quantity b), str_float ft (cost_per_unit b)]"

definition registered_empty :: "inventory_manager \<Rightarrow> inventory_manager" where
  "registered_empty m = m\<lparr>products := map (\<lambda>e. (fst e, (snd e)\<lparr>batches := []\<rparr>)) (products m)\<rparr>"

text \<open>
  A manager whose one product has a carriage return in its name, with one batch of 5
  units at 2.0, and the manager that has the product registered without batches.
\<close>

definition cr_name :: string where
  "cr_name = [CHR ''a'', CHR 0x0D, CHR ''b'']"

definition cr_manager_empty :: inventory_manager where
  "cr_manager_empty = snd (add_product InventoryManager cr_name 1 10)"

definition cr_manager :: inventory_manager where
  "cr_manager = snd (restock_product cr_manager_empty cr_name 5 2)"

text \<open>
  For an instance of the round trip: the manager that holds Widget alone, and a text of
  floating-point numbers that is right on the two costs of Widget's batches.
\<close>

definition widget_manager :: inventory_manager where
  "widget_manager =
     snd (restock_product (snd (restock_product (snd (add_product InventoryManager ''Widget'' 1 10))
       ''Widget'' 5 2)) ''Widget'' 3 (5 / 2))"

definition widget_float_text :: float_text where
  "widget_float_text =
     \<lparr>str_float = (\<lambda>c. if c = 2 then ''2.0'' else ''2.5''),
      float_of_str = (\<lambda>s. if s = ''2.0'' then Some 2 else if s = ''2.5'' then Some (5 / 2) else None)\<rparr>"

section \<open>Properties of the loop\<close>

lemma fulfill_loop_Nil: "fulfill_loop d (f, []) = (f, [])"
  by (simp add: fulfill_loop.simps loop_guard_def)

lemma fulfill_loop_done: "\<not> f < d \<Longrightarrow> fulfill_loop d (f, bs) = (f, bs)"
  by (simp add: fulfill_loop.simps loop_guard_def)

lemma fulfill_loop_snoc:
  "f < d \<Longrightarrow> fulfill_loop d (f, xs @ [b]) =
     (if quantity b \<ge> d - f
      then (d, if quantity b = d - f then xs else xs @ [b\<lparr>quantity := quantity b - (d - f)\<rparr>])
      else fulfill_loop d (f + quantity b, xs))"
  by (subst fulfill_loop.simps)
     (simp add: loop_guard_def loop_body_def Let_def fulfill_loop_done)

lemma fulfill_loop_conserve:
  "fst (fulfill_loop d (f, bs)) + total_quantity (snd (fulfill_loop d (f, bs))) = f + total_quantity bs"
proof (induction bs arbitrary: f rule: rev_induct)
  case Nil
  show ?case by (simp add: fulfill_loop_Nil)
next
  case (snoc b xs)
  show ?case
  proof (cases "f < d")
    case True
    then show ?thesis using snoc [of "f + quantity b"]
      by (simp add: fulfill_loop_snoc total_quantity_def)
  next
    case False
    then show ?thesis by (simp add: fulfill_loop_done)
  qed
qed

lemma fulfill_loop_outcome:
  "f < d \<Longrightarrow> fst (fulfill_loop d (f, bs)) = d \<or>
     (fst (fulfill_loop d (f, bs)) < d \<and> snd (fulfill_loop d (f, bs)) = [])"
proof (induction bs arbitrary: f rule: rev_induct)
  case Nil
  then show ?case by (simp add: fulfill_loop_Nil)
next
  case (snoc b xs)
  then show ?case by (simp add: fulfill_loop_snoc)
qed

lemma fulfill_loop_shape:
  "\<exists>k \<le> length bs. snd (fulfill_loop d (f, bs)) = take k bs \<or>
     (k < length bs \<and> (\<exists>q. q < quantity (bs ! k) \<and> q \<noteq> 0 \<and>
        snd (fulfill_loop d (f, bs)) = take k bs @ [(bs ! k)\<lparr>quantity := q\<rparr>]))"
proof (induction bs arbitrary: f rule: rev_induct)
  case Nil
  show ?case by (simp add: fulfill_loop_Nil)
next
  case (snoc b xs)
  show ?case
  proof (cases "f < d")
    case False
    then have "snd (fulfill_loop d (f, xs @ [b])) = take (length (xs @ [b])) (xs @ [b])"
      by (simp add: fulfill_loop_done)
    then show ?thesis by blast
  next
    case True
    show ?thesis
    proof (cases "quantity b \<ge> d - f")
      case False
      from snoc [of "f + quantity b"] obtain k where k: "k \<le> length xs"
        "snd (fulfill_loop d (f + quantity b, xs)) = take k xs \<or>
         (k < length xs \<and> (\<exists>q. q < quantity (xs ! k) \<and> q \<noteq> 0 \<and>
          snd (fulfill_loop d (f + quantity b, xs)) = take k xs @ [(xs ! k)\<lparr>quantity := q\<rparr>]))"
        by blast
      have eq: "fulfill_loop d (f, xs @ [b]) = fulfill_loop d (f + quantity b, xs)"
        using True False by (simp add: fulfill_loop_snoc)
      show ?thesis
        apply (rule exI [of _ k])
        using k by (auto simp: eq nth_append)
    next
      case ge: True
      show ?thesis
      proof (cases "quantity b = d - f")
        case True
        then have "snd (fulfill_loop d (f, xs @ [b])) = take (length xs) (xs @ [b])"
          using \<open>f < d\<close> by (simp add: fulfill_loop_snoc)
        then show ?thesis by (intro exI [of _ "length xs"]) simp
      next
        case False
        then have "snd (fulfill_loop d (f, xs @ [b])) =
            take (length xs) (xs @ [b]) @ [((xs @ [b]) ! length xs)\<lparr>quantity := quantity b - (d - f)\<rparr>]"
          using \<open>f < d\<close> ge by (simp add: fulfill_loop_snoc)
        moreover have "quantity b - (d - f) < quantity ((xs @ [b]) ! length xs)"
          "quantity b - (d - f) \<noteq> 0"
          using \<open>f < d\<close> False by simp_all
        ultimately show ?thesis
          by (intro exI [of _ "length xs"]) (auto intro!: exI [of _ "quantity b - (d - f)"])
      qed
    qed
  qed
qed


lemma fulfill_loop_no_zero:
  "list_all (\<lambda>b. quantity b \<noteq> 0) bs \<Longrightarrow>
     list_all (\<lambda>b. quantity b \<noteq> 0) (snd (fulfill_loop d (f, bs)))"
proof (induction bs arbitrary: f rule: rev_induct)
  case Nil
  show ?case by (simp add: fulfill_loop_Nil)
next
  case (snoc b xs)
  then show ?case
    by (cases "f < d") (simp_all add: fulfill_loop_snoc fulfill_loop_done)
qed

lemma loop_iterations_Nil: "loop_iterations d (f, []) = 0"
  by (simp add: loop_iterations.simps loop_guard_def)

lemma loop_iterations_done: "\<not> f < d \<Longrightarrow> loop_iterations d (f, bs) = 0"
  by (simp add: loop_iterations.simps loop_guard_def)

lemma loop_iterations_snoc:
  "f < d \<Longrightarrow> loop_iterations d (f, xs @ [b]) =
     (if quantity b \<ge> d - f then 1 else Suc (loop_iterations d (f + quantity b, xs)))"
  by (subst loop_iterations.simps)
     (simp add: loop_guard_def loop_body_def Let_def loop_iterations_done)

lemma loop_iterations_le: "loop_iterations d (f, bs) \<le> length bs"
proof (induction bs arbitrary: f rule: rev_induct)
  case Nil
  show ?case by (simp add: loop_iterations_Nil)
next
  case (snoc b xs)
  show ?case
    using snoc [of "f + quantity b"]
    by (cases "f < d") (simp_all add: loop_iterations_snoc loop_iterations_done)
qed

lemma fulfill_loop_funpow:
  "fulfill_loop d s = (loop_body d ^^ loop_iterations d s) s"
proof (induction d s rule: fulfill_loop.induct)
  case (1 d s)
  show ?case
  proof (cases "loop_guard d s")
    case True
    then show ?thesis
      using 1 by (subst fulfill_loop.simps, subst loop_iterations.simps)
        (simp add: funpow_swap1)
  next
    case False
    then show ?thesis
      by (subst fulfill_loop.simps, subst loop_iterations.simps) simp
  qed
qed

lemma fulfill_loop_guard_off: "\<not> loop_guard d (fulfill_loop d s)"
proof (induction d s rule: fulfill_loop.induct)
  case (1 d s)
  then show ?case
    by (cases "loop_guard d s") (simp_all add: fulfill_loop.simps [of d s])
qed

lemma loop_guard_before:
  "j < loop_iterations d s \<Longrightarrow> loop_guard d ((loop_body d ^^ j) s)"
proof (induction d s arbitrary: j rule: loop_iterations.induct)
  case (1 d s)
  show ?case
  proof (cases "loop_guard d s")
    case False
    with "1.prems" show ?thesis by (simp add: loop_iterations.simps [of d s])
  next
    case True
    show ?thesis
    proof (cases j)
      case 0
      with True show ?thesis by simp
    next
      case (Suc i)
      with "1.prems" True have "i < loop_iterations d (loop_body d s)"
        by (simp add: loop_iterations.simps [of d s])
      from "1.IH" [OF True this] Suc show ?thesis by (simp add: funpow_swap1)
    qed
  qed
qed

lemma loop_body_progress:
  "loop_guard d s \<Longrightarrow>
     fst (loop_body d s) = d \<or> length (snd (loop_body d s)) + 1 = length (snd s)"
  by (auto simp: loop_guard_def loop_body_def Let_def)

lemma fulfill_demand_batches:
  "batches (snd (fulfill_demand p d)) = snd (fulfill_loop d (0, batches p))"
  by (simp add: fulfill_demand_def Let_def)

lemma fulfill_loop_frame:
  "length (snd (fulfill_loop d (f, bs))) \<le> length bs \<and>
   map cost_per_unit (snd (fulfill_loop d (f, bs))) =
     take (length (snd (fulfill_loop d (f, bs)))) (map cost_per_unit bs) \<and>
   butlast (snd (fulfill_loop d (f, bs))) =
     take (length (snd (fulfill_loop d (f, bs))) - 1) bs \<and>
   (\<forall>i < length (snd (fulfill_loop d (f, bs))).
      quantity (snd (fulfill_loop d (f, bs)) ! i) \<le> quantity (bs ! i))"
proof -
  from fulfill_loop_shape [of bs d f] obtain k where k: "k \<le> length bs"
    and alt: "snd (fulfill_loop d (f, bs)) = take k bs \<or>
       (k < length bs \<and> (\<exists>q. q < quantity (bs ! k) \<and> q \<noteq> 0 \<and>
          snd (fulfill_loop d (f, bs)) = take k bs @ [(bs ! k)\<lparr>quantity := q\<rparr>]))"
    by blast
  from alt show ?thesis
  proof
    assume eq: "snd (fulfill_loop d (f, bs)) = take k bs"
    show ?thesis using k by (simp add: eq take_map butlast_take min_absorb2)
  next
    assume "k < length bs \<and> (\<exists>q. q < quantity (bs ! k) \<and> q \<noteq> 0 \<and>
          snd (fulfill_loop d (f, bs)) = take k bs @ [(bs ! k)\<lparr>quantity := q\<rparr>])"
    then obtain q where lt: "k < length bs" and q: "q < quantity (bs ! k)"
      and eq: "snd (fulfill_loop d (f, bs)) = take k bs @ [(bs ! k)\<lparr>quantity := q\<rparr>]"
      by blast
    have len: "length (snd (fulfill_loop d (f, bs))) = Suc k"
      using lt by (simp add: eq)
    have "take (Suc k) (map cost_per_unit bs) = map cost_per_unit (take k bs) @ [cost_per_unit (bs ! k)]"
      using lt by (simp add: take_Suc_conv_app_nth take_map)
    moreover have "\<forall>i < Suc k. quantity ((take k bs @ [(bs ! k)\<lparr>quantity := q\<rparr>]) ! i) \<le> quantity (bs ! i)"
      using q lt by (auto simp: nth_append less_Suc_eq)
    ultimately show ?thesis
      using lt by (simp add: len) (simp add: eq)
  qed
qed

section \<open>Evaluation and sums\<close>

lemma widget_batches:
  "batches widget = [\<lparr>quantity = 5, cost_per_unit = 2\<rparr>, \<lparr>quantity = 3, cost_per_unit = 5 / 2\<rparr>]"
  by (simp add: widget_def add_batch_def Product_def)

lemma widget_eq:
  "widget = \<lparr>product_name = ''Widget'', holding_cost = 1, stockout_penalty = 10,
      batches = [\<lparr>quantity = 5, cost_per_unit = 2\<rparr>, \<lparr>quantity = 3, cost_per_unit = 5 / 2\<rparr>]\<rparr>"
  by (simp add: widget_def add_batch_def Product_def)


lemma loop_body_tail_only:
  "loop_guard d s \<Longrightarrow> butlast (snd s) = take (length (snd s) - 1) (snd (loop_body d s))"
  by (auto simp: loop_guard_def loop_body_def Let_def)


lemma sum_list_quantity_times:
  "(\<Sum>b\<leftarrow>bs. of_int (quantity b) * (h::real)) = of_int (total_quantity bs) * h"
  by (induction bs) (simp_all add: total_quantity_def algebra_simps)

text \<open>
  When no operation rounds, the accumulation of \<^verbatim>\<open>calculate_holding_cost\<close> is the exact
  sum, in whatever order the batches stand: every partial sum is the sum of some of the
  products.
\<close>

lemma subseqs_Cons_mem:
  "ys \<in> set (subseqs zs) \<Longrightarrow> z # ys \<in> set (subseqs (z # zs)) \<and> ys \<in> set (subseqs (z # zs))"
  by (simp add: Let_def)

lemma subseqs_mset:
  "mset xs \<subseteq># mset zs \<Longrightarrow> \<exists>ys \<in> set (subseqs zs). mset ys = mset xs"
proof (induction zs arbitrary: xs)
  case Nil
  then show ?case by simp
next
  case (Cons z zs)
  show ?case
  proof (cases "z \<in> set xs")
    case True
    have "mset (remove1 z xs) \<subseteq># mset zs"
      using Cons.prems True
      by (simp add: subset_eq_diff_conv)
    from Cons.IH [OF this] obtain ys where ys: "ys \<in> set (subseqs zs)"
      "mset ys = mset (remove1 z xs)" by blast
    have "mset (z # ys) = mset xs" using ys(2) True by simp
    with subseqs_Cons_mem [OF ys(1), of z] show ?thesis by blast
  next
    case False
    have "mset xs \<subseteq># mset zs"
      unfolding subseteq_mset_def
    proof
      fix a
      show "count (mset xs) a \<le> count (mset zs) a"
      proof (cases "a = z")
        case True
        with False have "a \<notin># mset xs" by simp
        then have "count (mset xs) a = 0" by (rule iffD1 [OF not_in_iff])
        then show ?thesis by linarith
      next
        case neq: False
        from Cons.prems have "count (mset xs) a \<le> count (mset (z # zs)) a"
          by (simp add: subseteq_mset_def)
        with neq show ?thesis by simp
      qed
    qed
    from Cons.IH [OF this] obtain ys where "ys \<in> set (subseqs zs)" "mset ys = mset xs"
      by blast
    with subseqs_Cons_mem [of ys zs z] show ?thesis by blast
  qed
qed

lemma fold_float_exact:
  assumes "\<forall>b \<in> set bs. float_of_int (quantity b) = of_int (quantity b) \<and>
             round_float (of_int (quantity b) * h) = of_int (quantity b) * h"
    and "\<forall>n \<le> length bs.
           round_float (a + (\<Sum>b\<leftarrow>take n bs. of_int (quantity b) * h))
             = a + (\<Sum>b\<leftarrow>take n bs. of_int (quantity b) * h)"
  shows "fold (\<lambda>b total. float_add total (float_mul (float_of_int (quantity b)) h)) bs a
     = a + (\<Sum>b\<leftarrow>bs. of_int (quantity b) * h)"
  using assms
proof (induction bs arbitrary: a)
  case Nil
  show ?case by simp
next
  case (Cons b bs)
  from Cons.prems(1) have b: "float_of_int (quantity b) = of_int (quantity b)"
    "round_float (of_int (quantity b) * h) = of_int (quantity b) * h" by simp_all
  from Cons.prems(2) [rule_format, of 1]
  have one: "round_float (a + of_int (quantity b) * h) = a + of_int (quantity b) * h"
    by simp
  have step: "float_add a (float_mul (float_of_int (quantity b)) h) = a + of_int (quantity b) * h"
    by (simp add: float_add_def float_mul_def b one)
  have rest1: "\<forall>b \<in> set bs. float_of_int (quantity b) = of_int (quantity b) \<and>
             round_float (of_int (quantity b) * h) = of_int (quantity b) * h"
    using Cons.prems(1) by simp
  have rest2: "\<forall>n \<le> length bs.
      round_float (a + of_int (quantity b) * h + (\<Sum>b\<leftarrow>take n bs. of_int (quantity b) * h))
        = a + of_int (quantity b) * h + (\<Sum>b\<leftarrow>take n bs. of_int (quantity b) * h)"
  proof (intro allI impI)
    fix n assume "n \<le> length bs"
    with Cons.prems(2) [rule_format, of "Suc n"]
    show "round_float (a + of_int (quantity b) * h + (\<Sum>b\<leftarrow>take n bs. of_int (quantity b) * h))
        = a + of_int (quantity b) * h + (\<Sum>b\<leftarrow>take n bs. of_int (quantity b) * h)"
      by (simp add: add.assoc)
  qed
  from Cons.IH [OF rest1 rest2] show ?case by (simp add: step add.assoc)
qed

lemma holding_cost_exact:
  assumes ints: "\<forall>b \<in> set bs. float_of_int (quantity b) = of_int (quantity b)"
    and sums: "\<forall>ys \<in> set (subseqs (map (\<lambda>b. of_int (quantity b) * holding_cost p) bs)).
                 round_float (sum_list ys) = sum_list ys"
    and perm: "mset bs' = mset bs"
  shows "calculate_holding_cost (p\<lparr>batches := bs'\<rparr>)
     = (\<Sum>b\<leftarrow>bs. of_int (quantity b) * holding_cost p)"
proof -
  let ?c = "\<lambda>b. of_int (quantity b) * holding_cost p"
  have exact: "round_float (sum_list xs) = sum_list xs" if "mset xs \<subseteq># mset (map ?c bs)" for xs
  proof -
    from subseqs_mset [OF that] obtain ys where "ys \<in> set (subseqs (map ?c bs))"
      "mset ys = mset xs" by blast
    moreover from this(2) have "sum_mset (mset ys) = sum_mset (mset xs)" by simp
    then have "sum_list ys = sum_list xs" by (simp only: sum_mset_sum_list)
    ultimately show ?thesis using sums by auto
  qed
  have set_eq: "set bs' = set bs" using perm by (rule mset_eq_setD)
  have each: "\<forall>b \<in> set bs'. float_of_int (quantity b) = of_int (quantity b) \<and>
      round_float (?c b) = ?c b"
  proof
    fix b assume b: "b \<in> set bs'"
    then have "b \<in> set bs" using set_eq by simp
    then have "?c b \<in> ?c ` set bs" by (rule imageI)
    then have "?c b \<in># mset (map ?c bs)"
      by simp
    then have "mset [?c b] \<subseteq># mset (map ?c bs)"
      by (simp add: mset_subset_eq_single)
    from exact [OF this] ints \<open>b \<in> set bs\<close>
    show "float_of_int (quantity b) = of_int (quantity b) \<and> round_float (?c b) = ?c b"
      by simp
  qed
  have pre: "\<forall>n \<le> length bs'. round_float (0 + (\<Sum>b\<leftarrow>take n bs'. ?c b))
      = 0 + (\<Sum>b\<leftarrow>take n bs'. ?c b)"
  proof (intro allI impI)
    fix n
    have "mset bs' = mset (take n bs') + mset (drop n bs')"
      by (simp flip: mset_append)
    then have "mset (take n bs') \<subseteq># mset bs'"
      by simp
    then have "mset (map ?c (take n bs')) \<subseteq># mset (map ?c bs)"
      by (simp add: perm [symmetric] image_mset_subseteq_mono)
    from exact [OF this]
    show "round_float (0 + (\<Sum>b\<leftarrow>take n bs'. ?c b)) = 0 + (\<Sum>b\<leftarrow>take n bs'. ?c b)"
      by simp
  qed
  have "calculate_holding_cost (p\<lparr>batches := bs'\<rparr>) = 0 + (\<Sum>b\<leftarrow>bs'. ?c b)"
    unfolding calculate_holding_cost_def using fold_float_exact [OF each pre] by simp
  also have "(\<Sum>b\<leftarrow>bs'. ?c b) = (\<Sum>b\<leftarrow>bs. ?c b)"
  proof -
    have "sum_mset (mset (map ?c bs')) = sum_mset (mset (map ?c bs))"
      by (simp add: perm)
    then show ?thesis by (simp only: sum_mset_sum_list)
  qed
  finally show ?thesis by simp
qed

text \<open>
  The holding cost at the rate 0.1 for the quantities 1, 2, 3 and for 3, 2, 1.
\<close>

lemma float_tenth_eq: "float_tenth = 3602879701896397 / 36028797018963968"
  unfolding float_tenth_def by code_simp

lemma holding_cost_1_2_3:
  "calculate_holding_cost (add_batches (Product ''Widget'' float_tenth 10) [(1, 2), (2, 2), (3, 2)])
     = 1351079888211149 / 2251799813685248"
  by code_simp

lemma holding_cost_3_2_1:
  "calculate_holding_cost (add_batches (Product ''Widget'' float_tenth 10) [(3, 2), (2, 2), (1, 2)])
     = 5404319552844595 / 9007199254740992"
  by code_simp

section \<open>Properties of the manager\<close>






lemma main_manager_eq:
  "main_manager = \<lparr>products =
     [(''Laptop'', \<lparr>product_name = ''Laptop'', holding_cost = 1 / 2, stockout_penalty = 50,
         batches = [\<lparr>quantity = 10, cost_per_unit = 800\<rparr>, \<lparr>quantity = 15, cost_per_unit = 820\<rparr>]\<rparr>),
      (''Smartphone'', \<lparr>product_name = ''Smartphone'', holding_cost = 1 / 5, stockout_penalty = 30,
         batches = [\<lparr>quantity = 30, cost_per_unit = 450\<rparr>, \<lparr>quantity = 25, cost_per_unit = 460\<rparr>]\<rparr>)]\<rparr>"
  by (simp add: main_manager_def InventoryManager_def add_product_def restock_product_def
        Product_def add_batch_def)

section \<open>Properties of the CSV round trip\<close>

text \<open>
  \<^verbatim>\<open>int\<close> reads back what \<^verbatim>\<open>str\<close> writes, and the text of an integer has no
  carriage return for the text layer to change.
\<close>

lemma of_char_digit_char: "k < 10 \<Longrightarrow> of_char (digit_char k) = 48 + k"
  by (simp add: digit_char_def)

lemma is_digit_digit_char: "k < 10 \<Longrightarrow> is_digit (digit_char k)"
  by (simp add: is_digit_def of_char_digit_char)

lemma str_nat_digits: "str_nat n \<noteq> [] \<and> list_all is_digit (str_nat n)"
proof (induction n rule: str_nat.induct)
  case (1 n)
  show ?case
  proof (cases "n < 10")
    case True
    then show ?thesis by (simp add: str_nat.simps [of n] is_digit_digit_char)
  next
    case False
    with 1 show ?thesis by (simp add: str_nat.simps [of n] is_digit_digit_char)
  qed
qed

lemma str_nat_value:
  "foldl (\<lambda>a c. 10 * a + (of_char c - 48)) 0 (str_nat n) = n"
proof (induction n rule: str_nat.induct)
  case (1 n)
  show ?case
  proof (cases "n < 10")
    case True
    then show ?thesis by (simp add: str_nat.simps [of n] of_char_digit_char)
  next
    case False
    with 1 show ?thesis by (simp add: str_nat.simps [of n] of_char_digit_char)
  qed
qed

lemma nat_of_digits_str_nat: "nat_of_digits (str_nat n) = Some n"
  using str_nat_digits [of n] by (simp add: nat_of_digits_def str_nat_value)

lemma is_digit_not_sign: "is_digit c \<Longrightarrow> c \<noteq> CHR ''-'' \<and> c \<noteq> CHR ''+'' \<and> c \<noteq> CHR 0x0D"
  by (auto simp: is_digit_def)

lemma int_of_str_str_int: "int_of_str (str_int i) = Some i"
proof (cases "i < 0")
  case True
  then show ?thesis
    by (simp add: str_int_def int_of_str_def nat_of_digits_str_nat)
next
  case False
  obtain c cs where s: "str_nat (nat i) = c # cs"
    using str_nat_digits [of "nat i"] by (cases "str_nat (nat i)") auto
  with str_nat_digits [of "nat i"] have "is_digit c" by simp
  then have "c \<noteq> CHR ''-''" "c \<noteq> CHR ''+''" using is_digit_not_sign by blast+
  moreover have "nat_of_digits (c # cs) = Some (nat i)"
    using nat_of_digits_str_nat [of "nat i"] by (simp add: s)
  ultimately show ?thesis using False
    by (simp add: str_int_def int_of_str_def s)
qed

lemma universal_newlines_id: "CHR 0x0D \<notin> set s \<Longrightarrow> universal_newlines s = s"
  by (induction s rule: universal_newlines.induct) auto

lemma str_int_no_cr: "CHR 0x0D \<notin> set (str_int i)"
proof -
  have "CHR 0x0D \<notin> set (str_nat n)" for n
    using str_nat_digits [of n] is_digit_not_sign by (auto simp: list_all_iff)
  then show ?thesis by (simp add: str_int_def)
qed

lemma universal_newlines_str_int: "universal_newlines (str_int i) = str_int i"
  by (rule universal_newlines_id) (rule str_int_no_cr)

text \<open>
  The rows of one product are appended to it in order; the rows of all products restore
  every batch sequence. So the round trip gives the manager back when no product name has a
  carriage return in it and the text of every cost reads back as that cost.
\<close>

lemma map_entry_twice:
  "AList.map_entry k f (AList.map_entry k g ps) = AList.map_entry k (f \<circ> g) ps"
  by (induction ps) auto

lemma map_of_map_entry_None:
  "(map_of (AList.map_entry k f ps) k' = None) = (map_of ps k' = None)"
  by (simp add: map_of_map_entry split: option.splits)

lemma load_rows_product:
  assumes "map_of ps k \<noteq> None" and "universal_newlines k = k"
    and "\<forall>b \<in> set bs. float_of_str ft (universal_newlines (str_float ft (cost_per_unit b)))
           = Some (cost_per_unit b)"
  shows "load_rows ft (map (map universal_newlines) (map (batch_row ft k) bs) @ rest) ps
     = load_rows ft rest (AList.map_entry k (\<lambda>p. p\<lparr>batches := batches p @ bs\<rparr>) ps)"
  using assms
proof (induction bs arbitrary: ps)
  case Nil
  have "AList.map_entry k (\<lambda>p. p\<lparr>batches := batches p @ []\<rparr>) ps = ps"
    by (induction ps) auto
  then show ?case by simp
next
  case (Cons b bs)
  define ps' where "ps' = AList.map_entry k (\<lambda>p. add_batch p (quantity b) (cost_per_unit b)) ps"
  have known: "map_of ps' k \<noteq> None"
    using Cons.prems(1) by (simp add: ps'_def map_of_map_entry_None)
  have step: "load_rows ft (map (map universal_newlines) (map (batch_row ft k) (b # bs)) @ rest) ps
      = load_rows ft (map (map universal_newlines) (map (batch_row ft k) bs) @ rest) ps'"
    using Cons.prems
    by (simp add: batch_row_def universal_newlines_str_int int_of_str_str_int ps'_def)
  have "AList.map_entry k (\<lambda>p. p\<lparr>batches := batches p @ bs\<rparr>) ps'
      = AList.map_entry k (\<lambda>p. p\<lparr>batches := batches p @ b # bs\<rparr>) ps"
    unfolding ps'_def map_entry_twice
    by (rule arg_cong [where f = "\<lambda>f. AList.map_entry k f ps"])
       (auto simp: add_batch_def fun_eq_iff)
  with Cons.IH [OF known Cons.prems(2)] Cons.prems(3) step show ?case by simp
qed

lemma load_rows_products:
  assumes "\<forall>e \<in> set es. map_of ps (fst e) \<noteq> None \<and> product_name (snd e) = fst e \<and>
             universal_newlines (fst e) = fst e"
    and "\<forall>e \<in> set es. \<forall>b \<in> set (batches (snd e)).
           float_of_str ft (universal_newlines (str_float ft (cost_per_unit b)))
             = Some (cost_per_unit b)"
  shows "load_rows ft
       (map (map universal_newlines)
          (concat (map (\<lambda>e. map (batch_row ft (product_name (snd e))) (batches (snd e))) es))) ps
     = (True, fold (\<lambda>e. AList.map_entry (fst e)
                          (\<lambda>p. p\<lparr>batches := batches p @ batches (snd e)\<rparr>)) es ps)"
  using assms
proof (induction es arbitrary: ps)
  case Nil
  show ?case by simp
next
  case (Cons e es)
  define ps' where
    "ps' = AList.map_entry (fst e) (\<lambda>p. p\<lparr>batches := batches p @ batches (snd e)\<rparr>) ps"
  from Cons.prems(1) have e: "map_of ps (fst e) \<noteq> None" "product_name (snd e) = fst e"
    "universal_newlines (fst e) = fst e" by simp_all
  from Cons.prems(2) have fl: "\<forall>b \<in> set (batches (snd e)).
      float_of_str ft (universal_newlines (str_float ft (cost_per_unit b))) = Some (cost_per_unit b)"
    by simp
  have rest1: "\<forall>e \<in> set es. map_of ps' (fst e) \<noteq> None \<and> product_name (snd e) = fst e \<and>
             universal_newlines (fst e) = fst e"
    using Cons.prems(1) by (simp add: ps'_def map_of_map_entry_None)
  have rest2: "\<forall>e \<in> set es. \<forall>b \<in> set (batches (snd e)).
           float_of_str ft (universal_newlines (str_float ft (cost_per_unit b)))
             = Some (cost_per_unit b)"
    using Cons.prems(2) by simp
  show ?case
    using load_rows_product [OF e(1) e(3) fl] Cons.IH [OF rest1 rest2]
    by (simp add: e(2) ps'_def)
qed

lemma fold_restore:
  "distinct (map fst (pre @ es)) \<Longrightarrow>
   fold (\<lambda>e. AList.map_entry (fst e) (\<lambda>p. p\<lparr>batches := batches p @ batches (snd e)\<rparr>)) es
        (pre @ map (\<lambda>e. (fst e, (snd e)\<lparr>batches := []\<rparr>)) es) = pre @ es"
proof (induction es arbitrary: pre)
  case Nil
  show ?case by simp
next
  case (Cons e es)
  from Cons.prems have notin: "fst e \<notin> fst ` set pre" by auto
  have entry: "AList.map_entry (fst e) f (pre @ x # xs) = pre @ (fst e, f (snd x)) # xs"
    if "fst x = fst e" for f x xs
    using notin that by (induction pre) auto
  have "AList.map_entry (fst e) (\<lambda>p. p\<lparr>batches := batches p @ batches (snd e)\<rparr>)
          (pre @ map (\<lambda>e. (fst e, (snd e)\<lparr>batches := []\<rparr>)) (e # es))
      = (pre @ [e]) @ map (\<lambda>e. (fst e, (snd e)\<lparr>batches := []\<rparr>)) es"
    by (simp add: entry)
  moreover have "distinct (map fst ((pre @ [e]) @ es))" using Cons.prems by simp
  ultimately show ?case using Cons.IH [of "pre @ [e]"] by simp
qed

lemma roundtrip_without_carriage_return:
  assumes "distinct (map fst (products m))"
    and "\<forall>e \<in> set (products m). product_name (snd e) = fst e \<and> universal_newlines (fst e) = fst e"
    and "\<forall>e \<in> set (products m). \<forall>b \<in> set (batches (snd e)).
           float_of_str ft (universal_newlines (str_float ft (cost_per_unit b)))
             = Some (cost_per_unit b)"
  shows "load_from_csv ft (registered_empty m) (Some (read_text_mode (save_to_csv ft m)))
     = (Loaded, m)"
proof -
  let ?empty = "map (\<lambda>e. (fst e, (snd e)\<lparr>batches := []\<rparr>)) (products m)"
  have "map fst ?empty = map fst (products m)" by simp
  then have "fst ` set ?empty = fst ` set (products m)" by (metis set_map)
  then have keys: "map_of ?empty k = None \<longleftrightarrow> map_of (products m) k = None" for k
    by (simp only: map_of_eq_None_iff)
  have a1: "\<forall>e \<in> set (products m). map_of ?empty (fst e) \<noteq> None \<and> product_name (snd e) = fst e \<and>
             universal_newlines (fst e) = fst e"
  proof
    fix e assume e: "e \<in> set (products m)"
    then have "map_of (products m) (fst e) \<noteq> None" by (simp add: map_of_eq_None_iff)
    then have "map_of ?empty (fst e) \<noteq> None" by (simp only: keys not_False_eq_True)
    with assms(2) e show "map_of ?empty (fst e) \<noteq> None \<and> product_name (snd e) = fst e \<and>
             universal_newlines (fst e) = fst e" by blast
  qed
  have "load_rows ft
       (map (map universal_newlines)
          (concat (map (\<lambda>e. map (batch_row ft (product_name (snd e))) (batches (snd e)))
             (products m)))) ?empty
     = (True, products m)"
    using load_rows_products [OF a1 assms(3)] fold_restore [of "[]" "products m"] assms(1)
    by simp
  then show ?thesis
    by (simp add: load_from_csv_def save_to_csv_def read_text_mode_def registered_empty_def
          batch_row_def [abs_def])
qed

lemma widget_manager_eq: "widget_manager = \<lparr>products = [(''Widget'', widget)]\<rparr>"
  by (simp add: widget_manager_def widget_def InventoryManager_def add_product_def
        restock_product_def)

lemma roundtrip_widget_manager:
  "load_from_csv widget_float_text (registered_empty widget_manager)
     (Some (read_text_mode (save_to_csv widget_float_text widget_manager)))
   = (Loaded, widget_manager)"
proof (rule roundtrip_without_carriage_return)
  show "distinct (map fst (products widget_manager))"
    by (simp add: widget_manager_eq)
  show "\<forall>e \<in> set (products widget_manager).
      product_name (snd e) = fst e \<and> universal_newlines (fst e) = fst e"
    by (simp add: widget_manager_eq widget_eq)
  show "\<forall>e \<in> set (products widget_manager). \<forall>b \<in> set (batches (snd e)).
      float_of_str widget_float_text
        (universal_newlines (str_float widget_float_text (cost_per_unit b)))
      = Some (cost_per_unit b)"
    by (simp add: widget_manager_eq widget_eq widget_float_text_def)
qed

lemma str_int_5: "str_int 5 = ''5''"
  by code_simp

lemma cr_manager_empty_eq:
  "cr_manager_empty = \<lparr>products = [(cr_name, Product cr_name 1 10)]\<rparr>"
  by (simp add: cr_manager_empty_def InventoryManager_def add_product_def)

lemma cr_manager_eq:
  "cr_manager = \<lparr>products = [(cr_name, add_batch (Product cr_name 1 10) 5 2)]\<rparr>"
  by (simp add: cr_manager_def cr_manager_empty_eq restock_product_def)

section \<open>Claims\<close>

text \<open>
  C1, as amended. For every product and every sequence of \<^verbatim>\<open>add_batch\<close> calls followed
  by a single \<^verbatim>\<open>fulfill_demand(d)\<close> where d is at least 0 and at most the total quantity
  across all batches: the call returns 0, the total quantity goes down by exactly d, and
  the batches are depleted newest-first: a batch is removed or changed only when every
  newer batch has been removed, and every pass of the loop leaves all batches but the
  current tail as they are.
\<close>

theorem C1_fulfill_within_stock:
  assumes "0 \<le> d" and "d \<le> total_quantity (batches (add_batches p rs))"
  shows "(let p1 = add_batches p rs; r = fulfill_demand p1 d;
              bs = batches p1; bs' = batches (snd r) in
          fst r = 0 \<and>
          total_quantity bs - total_quantity bs' = d \<and>
          length bs' \<le> length bs \<and>
          (\<forall>i j. i < j \<and> j < length bs \<and> (length bs' \<le> i \<or> bs' ! i \<noteq> bs ! i)
             \<longrightarrow> length bs' \<le> j) \<and>
          (\<forall>s. loop_guard d s \<longrightarrow>
             butlast (snd s) = take (length (snd s) - 1) (snd (loop_body d s))))"
proof -
  define bs where "bs = batches (add_batches p rs)"
  define r where "r = fulfill_loop d (0, bs)"
  have cons: "fst r + total_quantity (snd r) = total_quantity bs"
    using fulfill_loop_conserve [of d 0 bs] by (simp add: r_def)
  have full: "fst r = d"
  proof (cases "0 < d")
    case True
    from fulfill_loop_outcome [OF True, of bs] cons assms(2) show ?thesis
      by (auto simp: r_def bs_def total_quantity_def)
  next
    case False
    with assms(1) show ?thesis by (simp add: r_def fulfill_loop_done)
  qed
  have frame: "length (snd r) \<le> length bs" "butlast (snd r) = take (length (snd r) - 1) bs"
    using fulfill_loop_frame [of d 0 bs] by (simp_all add: r_def)
  have order: "length (snd r) \<le> j"
    if "i < j" "j < length bs" "length (snd r) \<le> i \<or> snd r ! i \<noteq> bs ! i" for i j
  proof (rule ccontr)
    assume "\<not> length (snd r) \<le> j"
    with that(1) have i: "i < length (snd r) - 1" by simp
    then have "snd r ! i = butlast (snd r) ! i" by (simp add: nth_butlast)
    also have "\<dots> = bs ! i" using i by (simp add: frame(2))
    finally show False using that(3) i by simp
  qed
  have res: "fulfill_demand (add_batches p rs) d = (0, (add_batches p rs)\<lparr>batches := snd r\<rparr>)"
    using full by (simp add: fulfill_demand_def Let_def r_def bs_def)
  have pass: "\<forall>s. loop_guard d s \<longrightarrow>
      butlast (snd s) = take (length (snd s) - 1) (snd (loop_body d s))"
    using loop_body_tail_only by blast
  have after: "batches (snd (fulfill_demand (add_batches p rs) d)) = snd r"
    by (simp add: res)
  have zero: "fst (fulfill_demand (add_batches p rs) d) = 0"
    by (simp add: res)
  have down: "total_quantity bs - total_quantity (snd r) = d"
    using cons full by simp
  have newest: "\<forall>i j. i < j \<and> j < length bs \<and> (length (snd r) \<le> i \<or> snd r ! i \<noteq> bs ! i)
      \<longrightarrow> length (snd r) \<le> j"
    using order by blast
  show ?thesis
    unfolding Let_def after
    by (intro conjI zero down [unfolded bs_def] frame(1) [unfolded bs_def]
          newest [unfolded bs_def] pass)
qed

text \<open>
  C1, witness: the spec's scenario, Widget restocked with 5 and 3 units, demand 4.
\<close>

theorem C1_fulfill_within_stock_witness:
  "(0::int) \<le> 4 \<and> 4 \<le> total_quantity (batches (add_batches (Product ''Widget'' 1 10) [(5, 2), (3, 5 / 2)]))
   \<and> fst (fulfill_demand (add_batches (Product ''Widget'' 1 10) [(5, 2), (3, 5 / 2)]) 4) = 0
   \<and> total_quantity (batches (add_batches (Product ''Widget'' 1 10) [(5, 2), (3, 5 / 2)]))
       - total_quantity (batches (snd (fulfill_demand
           (add_batches (Product ''Widget'' 1 10) [(5, 2), (3, 5 / 2)]) 4))) = 4"
proof -
  have h1: "(0::int) \<le> 4" by simp
  have h2: "4 \<le> total_quantity (batches (add_batches (Product ''Widget'' 1 10) [(5, 2), (3, 5 / 2)]))"
    by (simp add: add_batches_def add_batch_def Product_def total_quantity_def)
  from C1_fulfill_within_stock [OF h1 h2] h1 h2 show ?thesis
    by (simp add: Let_def)
qed

text \<open>
  C1, counterexample to the claim as stated: a demand of -1 is at most the total quantity
  8, the loop is not entered, no quantity changes, and the decrease 0 is not the demand.
\<close>

theorem C1_negative_demand_counterexample:
  "(- 1) \<le> total_quantity (batches (add_batches (Product ''Widget'' 1 10) [(5, 2), (3, 5 / 2)]))
   \<and> total_quantity (batches (add_batches (Product ''Widget'' 1 10) [(5, 2), (3, 5 / 2)]))
       - total_quantity (batches (snd (fulfill_demand
           (add_batches (Product ''Widget'' 1 10) [(5, 2), (3, 5 / 2)]) (- 1)))) \<noteq> - 1"
  by (simp add: add_batches_def add_batch_def Product_def total_quantity_def
        fulfill_demand_def Let_def fulfill_loop_done)




text \<open>
  C3, counterexample to the claim as stated: \<^verbatim>\<open>add_batch(0, 2.0)\<close> on a product without
  batches leaves a batch of quantity 0 in the sequence.
\<close>

theorem C3_zero_batch_counterexample:
  "no_empty_batch (Product ''Widget'' 1 10) \<and>
   \<not> no_empty_batch (add_batch (Product ''Widget'' 1 10) 0 2)"
  by (simp add: no_empty_batch_def add_batch_def Product_def)

text \<open>
  C3, as amended. \<^verbatim>\<open>add_batch\<close> with a quantity other than 0 and \<^verbatim>\<open>fulfill_demand\<close> with
  any demand preserve the invariant that no batch of quantity 0 is in the sequence; and a
  pass of the loop of \<^verbatim>\<open>fulfill_demand\<close> removes the tail batch exactly when what is left
  of its quantity, after the units taken from it in that pass, is 0 (otherwise the tail
  batch stays, with what is left).
\<close>

theorem C3_no_empty_batch_preserved:
  "(no_empty_batch p \<and> q \<noteq> 0 \<longrightarrow> no_empty_batch (add_batch p q c)) \<and>
   (no_empty_batch p \<longrightarrow> no_empty_batch (snd (fulfill_demand p d))) \<and>
   (loop_guard d (f, bs) \<longrightarrow>
      (let s' = loop_body d (f, bs); left = quantity (last bs) - (fst s' - f) in
         (snd s' = butlast bs \<longleftrightarrow> left = 0) \<and>
         (snd s' \<noteq> butlast bs \<longrightarrow> snd s' = butlast bs @ [(last bs)\<lparr>quantity := left\<rparr>])))"
proof (intro conjI impI)
  assume "no_empty_batch p \<and> q \<noteq> 0"
  then show "no_empty_batch (add_batch p q c)"
    by (simp add: no_empty_batch_def add_batch_def)
next
  assume "no_empty_batch p"
  then show "no_empty_batch (snd (fulfill_demand p d))"
    using fulfill_loop_no_zero [of "batches p" d 0]
    by (simp add: no_empty_batch_def fulfill_demand_batches)
next
  assume "loop_guard d (f, bs)"
  then show "let s' = loop_body d (f, bs); left = quantity (last bs) - (fst s' - f) in
         (snd s' = butlast bs \<longleftrightarrow> left = 0) \<and>
         (snd s' \<noteq> butlast bs \<longrightarrow> snd s' = butlast bs @ [(last bs)\<lparr>quantity := left\<rparr>])"
    by (auto simp: loop_guard_def loop_body_def Let_def)
qed

text \<open>
  C3, witness: a restock of 3 units after one of 5, and a demand of 5 on the batch of 5.
\<close>

theorem C3_no_empty_batch_preserved_witness:
  "no_empty_batch (add_batch (Product ''Widget'' 1 10) 5 2) \<and>
   no_empty_batch (add_batch (add_batch (Product ''Widget'' 1 10) 5 2) 3 (5 / 2)) \<and>
   no_empty_batch (snd (fulfill_demand (add_batch (Product ''Widget'' 1 10) 5 2) 5)) \<and>
   loop_guard 5 (0, batches (add_batch (Product ''Widget'' 1 10) 5 2)) \<and>
   snd (loop_body 5 (0, batches (add_batch (Product ''Widget'' 1 10) 5 2))) = []"
proof -
  have h1: "no_empty_batch (add_batch (Product ''Widget'' 1 10) 5 2)"
    by (simp add: no_empty_batch_def add_batch_def Product_def)
  have h2: "loop_guard 5 (0, batches (add_batch (Product ''Widget'' 1 10) 5 2))"
    by (simp add: loop_guard_def add_batch_def Product_def)
  have h3: "(3::int) \<noteq> 0" by simp
  from C3_no_empty_batch_preserved
         [of "add_batch (Product ''Widget'' 1 10) 5 2" 3 "5 / 2" 5 0
             "batches (add_batch (Product ''Widget'' 1 10) 5 2)"]
       h1 h2 h3
  show ?thesis
    by (simp add: Let_def loop_body_def add_batch_def Product_def)
qed



text \<open>
  C5. The claim: \<^verbatim>\<open>save_to_csv\<close> and then \<^verbatim>\<open>load_from_csv\<close> of the written file, into a
  manager that has the same product names registered with no batches, gives every product
  its original batch sequence. The code does not do so for a product whose name holds a
  carriage return: the file is written with \<^verbatim>\<open>newline=''\<close> but read without it, the name
  comes back with a line feed in its place, no such product is registered, and the row is
  skipped. The product had one batch and has none after the round trip, whatever the text
  of a floating-point number is.
\<close>

theorem C5_roundtrip_loses_batch:
  "batches (the (map_of (products cr_manager) cr_name)) = [\<lparr>quantity = 5, cost_per_unit = 2\<rparr>] \<and>
   registered_empty cr_manager = cr_manager_empty \<and>
   read_text_mode (save_to_csv ft cr_manager) =
     [csv_header, [[CHR ''a'', CHR 0x0A, CHR ''b''], ''5'', universal_newlines (str_float ft 2)]] \<and>
   load_from_csv ft cr_manager_empty (Some (read_text_mode (save_to_csv ft cr_manager)))
     = (Loaded, cr_manager_empty) \<and>
   batches (the (map_of (products cr_manager_empty) cr_name)) = []"
  by (simp add: cr_manager_eq cr_manager_empty_eq save_to_csv_def read_text_mode_def
        load_from_csv_def csv_header_def add_batch_def Product_def cr_name_def
        registered_empty_def str_int_5)

text \<open>
  C6. For every product and every demand d, \<^verbatim>\<open>fulfill_demand(d)\<close> changes no batch's
  \<^verbatim>\<open>cost_per_unit\<close>; the surviving sequence is as long as a prefix of the original one,
  all its batches but the last are the original ones, and no quantity has gone up. The
  product's name and its two cost parameters are not changed either.
\<close>

theorem C6_fulfill_frame:
  "(let bs = batches p; p' = snd (fulfill_demand p d); bs' = batches p' in
     length bs' \<le> length bs \<and>
     map cost_per_unit bs' = take (length bs') (map cost_per_unit bs) \<and>
     butlast bs' = take (length bs' - 1) bs \<and>
     (\<forall>i < length bs'. quantity (bs' ! i) \<le> quantity (bs ! i)) \<and>
     product_name p' = product_name p \<and> holding_cost p' = holding_cost p \<and>
     stockout_penalty p' = stockout_penalty p)"
proof -
  have "product_name (snd (fulfill_demand p d)) = product_name p"
    "holding_cost (snd (fulfill_demand p d)) = holding_cost p"
    "stockout_penalty (snd (fulfill_demand p d)) = stockout_penalty p"
    by (simp_all add: fulfill_demand_def Let_def)
  with fulfill_loop_frame [of d 0 "batches p"] show ?thesis
    by (simp add: Let_def fulfill_demand_batches)
qed

text \<open>
  C6, witness: Widget with batches of 5 and 3 units, demand 4.
\<close>

theorem C6_fulfill_frame_witness:
  "batches (snd (fulfill_demand
      \<lparr>product_name = ''Widget'', holding_cost = 1, stockout_penalty = 10,
       batches = [\<lparr>quantity = 5, cost_per_unit = 2\<rparr>, \<lparr>quantity = 3, cost_per_unit = 5 / 2\<rparr>]\<rparr> 4))
     = [\<lparr>quantity = 4, cost_per_unit = 2\<rparr>]
   \<and> butlast [\<lparr>quantity = 4, cost_per_unit = 2\<rparr>] = take 0 [\<lparr>quantity = 5, cost_per_unit = 2\<rparr>, \<lparr>quantity = 3, cost_per_unit = 5 / 2\<rparr>]
   \<and> map cost_per_unit [\<lparr>quantity = 4, cost_per_unit = 2::real\<rparr>] = [2]"
  using C6_fulfill_frame [of "\<lparr>product_name = ''Widget'', holding_cost = 1, stockout_penalty = 10,
       batches = [\<lparr>quantity = 5, cost_per_unit = 2\<rparr>, \<lparr>quantity = 3, cost_per_unit = 5 / 2\<rparr>]\<rparr>" 4]
  by (simp add: fulfill_demand_def Let_def fulfill_loop_snoc [of _ _ "[]", simplified]
       fulfill_loop_snoc [of _ _ "[x]" for x, simplified])

text \<open>
  C7, as amended. For every product for which no floating-point operation of the
  accumulation rounds (every quantity is a float, and every sum of some of the products
  quantity times holding cost is a float), \<^verbatim>\<open>calculate_holding_cost()\<close> is the sum over the
  batches of quantity times the product's holding cost, which is the total quantity times
  the holding cost, and it is the same for every permutation of the batch sequence.
\<close>

theorem C7_holding_cost_exact:
  assumes "\<forall>b \<in> set (batches p). float_of_int (quantity b) = of_int (quantity b)"
    and "\<forall>ys \<in> set (subseqs (map (\<lambda>b. of_int (quantity b) * holding_cost p) (batches p))).
           round_float (sum_list ys) = sum_list ys"
  shows "calculate_holding_cost p = (\<Sum>b\<leftarrow>batches p. of_int (quantity b) * holding_cost p) \<and>
         calculate_holding_cost p = of_int (total_quantity (batches p)) * holding_cost p \<and>
         (mset bs' = mset (batches p) \<longrightarrow>
            calculate_holding_cost (p\<lparr>batches := bs'\<rparr>) = calculate_holding_cost p)"
proof -
  have same: "calculate_holding_cost p
      = (\<Sum>b\<leftarrow>batches p. of_int (quantity b) * holding_cost p)"
    using holding_cost_exact [OF assms refl, of ] by simp
  have perm: "calculate_holding_cost (p\<lparr>batches := bs'\<rparr>) = calculate_holding_cost p"
    if "mset bs' = mset (batches p)"
    using holding_cost_exact [OF assms that] same by simp
  from same perm show ?thesis
    by (simp add: sum_list_quantity_times)
qed

text \<open>
  C7, witness: batches of 10 and 15 units at the holding cost 0.5, and the two swapped.
\<close>

theorem C7_holding_cost_exact_witness:
  "float_of_int 10 = 10 \<and> float_of_int 15 = 15 \<and>
   subseqs (map (\<lambda>b. of_int (quantity b) * (1 / 2 :: real))
      (batches (add_batches (Product ''Laptop'' (1 / 2) 50) [(10, 800), (15, 820)])))
     = [[5, 15 / 2], [5], [15 / 2], []] \<and>
   round_float (5 + 15 / 2) = 5 + 15 / 2 \<and> round_float 5 = 5 \<and>
   round_float (15 / 2) = 15 / 2 \<and> round_float 0 = 0 \<and>
   mset [\<lparr>quantity = 15, cost_per_unit = 820\<rparr>, \<lparr>quantity = 10, cost_per_unit = 800\<rparr>]
     = mset (batches (add_batches (Product ''Laptop'' (1 / 2) 50) [(10, 800), (15, 820)])) \<and>
   calculate_holding_cost (add_batches (Product ''Laptop'' (1 / 2) 50) [(10, 800), (15, 820)]) = 25 / 2 \<and>
   calculate_holding_cost ((add_batches (Product ''Laptop'' (1 / 2) 50) [(10, 800), (15, 820)])
       \<lparr>batches := [\<lparr>quantity = 15, cost_per_unit = 820\<rparr>, \<lparr>quantity = 10, cost_per_unit = 800\<rparr>]\<rparr>)
     = 25 / 2"
proof -
  let ?p = "add_batches (Product ''Laptop'' (1 / 2) 50) [(10, 800), (15, 820)]"
  have p: "?p = \<lparr>product_name = ''Laptop'', holding_cost = 1 / 2, stockout_penalty = 50,
      batches = [\<lparr>quantity = 10, cost_per_unit = 800\<rparr>, \<lparr>quantity = 15, cost_per_unit = 820\<rparr>]\<rparr>"
    by (simp add: add_batches_def add_batch_def Product_def)
  have r10: "round_float 10 = 10" and r15: "round_float 15 = 15" and r5: "round_float 5 = 5"
    and r75: "round_float (15 / 2) = 15 / 2" and r125: "round_float (25 / 2) = 25 / 2"
    and r0: "round_float 0 = 0"
    by code_simp+
  have h1: "\<forall>b \<in> set (batches ?p). float_of_int (quantity b) = of_int (quantity b)"
    by (simp add: p float_of_int_def r10 r15)
  have h2: "\<forall>ys \<in> set (subseqs (map (\<lambda>b. of_int (quantity b) * holding_cost ?p) (batches ?p))).
      round_float (sum_list ys) = sum_list ys"
    by (simp add: p r5 r75 r125 r0)
  have h3: "mset [\<lparr>quantity = 15, cost_per_unit = 820\<rparr>, \<lparr>quantity = 10, cost_per_unit = 800\<rparr>]
      = mset (batches ?p)"
    by (simp add: p)
  have total: "of_int (total_quantity (batches ?p)) * holding_cost ?p = 25 / 2"
    by (simp add: p total_quantity_def)
  have hc: "holding_cost ?p = 1 / 2" by (simp add: p)
  note c = C7_holding_cost_exact [OF h1 h2,
      of "[\<lparr>quantity = 15, cost_per_unit = 820\<rparr>, \<lparr>quantity = 10, cost_per_unit = 800\<rparr>]"]
  have v: "calculate_holding_cost ?p = 25 / 2"
    using c [THEN conjunct2, THEN conjunct1] total by simp
  have w: "calculate_holding_cost (?p\<lparr>batches :=
        [\<lparr>quantity = 15, cost_per_unit = 820\<rparr>, \<lparr>quantity = 10, cost_per_unit = 800\<rparr>]\<rparr>) = 25 / 2"
    using c [THEN conjunct2, THEN conjunct2, rule_format, OF h3] v by simp
  have subs: "subseqs (map (\<lambda>b. of_int (quantity b) * (1 / 2 :: real)) (batches ?p))
      = [[5, 15 / 2], [5], [15 / 2], []]"
    by (simp add: p)
  have f10: "float_of_int 10 = 10" and f15: "float_of_int 15 = 15"
    by (simp_all add: float_of_int_def r10 r15)
  have r125': "round_float (5 + 15 / 2) = 5 + 15 / 2"
    using r125 by simp
  show ?thesis
    using f10 f15 subs r125' r5 r75 r0 h3 v w by (intro conjI)
qed

text \<open>
  C7, counterexample to the claim as stated: at the holding cost 0.1 the batches of 1, 2
  and 3 units give 0.6000000000000001 and the same batches in the order 3, 2, 1 give 0.6;
  the first is not the sum of the three products either.
\<close>

theorem C7_float_order_counterexample:
  "mset (batches (add_batches (Product ''Widget'' float_tenth 10) [(3, 2), (2, 2), (1, 2)]))
     = mset (batches (add_batches (Product ''Widget'' float_tenth 10) [(1, 2), (2, 2), (3, 2)])) \<and>
   calculate_holding_cost (add_batches (Product ''Widget'' float_tenth 10) [(3, 2), (2, 2), (1, 2)])
     \<noteq> calculate_holding_cost (add_batches (Product ''Widget'' float_tenth 10) [(1, 2), (2, 2), (3, 2)]) \<and>
   calculate_holding_cost (add_batches (Product ''Widget'' float_tenth 10) [(1, 2), (2, 2), (3, 2)])
     \<noteq> (\<Sum>b\<leftarrow>batches (add_batches (Product ''Widget'' float_tenth 10) [(1, 2), (2, 2), (3, 2)]).
          of_int (quantity b) * float_tenth)"
proof -
  have perm: "mset (batches (add_batches (Product ''Widget'' float_tenth 10) [(3, 2), (2, 2), (1, 2)]))
     = mset (batches (add_batches (Product ''Widget'' float_tenth 10) [(1, 2), (2, 2), (3, 2)]))"
    by (simp add: add_batches_def add_batch_def Product_def)
  have order: "(5404319552844595 / 9007199254740992 :: real) \<noteq> 1351079888211149 / 2251799813685248"
    by simp
  have exact: "(\<Sum>b\<leftarrow>batches (add_batches (Product ''Widget'' float_tenth 10) [(1, 2), (2, 2), (3, 2)]).
          of_int (quantity b) * float_tenth) = 10808639105689191 / 18014398509481984"
    by (simp add: add_batches_def add_batch_def Product_def float_tenth_eq)
  have sum: "(1351079888211149 / 2251799813685248 :: real) \<noteq> 10808639105689191 / 18014398509481984"
    by simp
  show ?thesis
    unfolding holding_cost_1_2_3 holding_cost_3_2_1 exact
    using perm order sum by (intro conjI)
qed

text \<open>
  C8. For every product, \<^verbatim>\<open>fulfill_demand(0)\<close> is a no-op: the product, with every batch
  of it, is returned as it was, and the stockout cost returned is 0.
\<close>

theorem C8_fulfill_zero_noop: "fulfill_demand p 0 = (0, p)"
  by (simp add: fulfill_demand_def fulfill_loop_done)

text \<open>
  C9. \<^verbatim>\<open>add_product\<close> with a name that is already registered returns the manager as it
  was, with every product, its cost parameters and its batches, and reports that the
  product exists; there is no error path.
\<close>

theorem C9_add_product_duplicate:
  "map_of (products m) name \<noteq> None \<Longrightarrow>
     add_product m name h s = (''Product '' @ name @ '' already exists.'', m)"
  by (simp add: add_product_def)

text \<open>
  C9, witness: Laptop added again to the manager of \<^verbatim>\<open>main()\<close>.
\<close>

theorem C9_add_product_duplicate_witness:
  "map_of (products main_manager) ''Laptop'' \<noteq> None \<and>
   add_product main_manager ''Laptop'' 9 9 = (''Product Laptop already exists.'', main_manager)"
proof -
  have h: "map_of (products main_manager) ''Laptop'' \<noteq> None"
    by (simp add: main_manager_eq)
  from C9_add_product_duplicate [OF h, of 9 9] h show ?thesis by simp
qed

text \<open>
  C10. The loop of \<^verbatim>\<open>fulfill_demand\<close> terminates for every integer demand and every
  batch sequence, batches of quantity 0 included: after \<open>loop_iterations\<close> passes, at most
  the number of batches plus one, the loop condition is false, it held before each of
  those passes, and the state reached is the loop's result; each pass either sets
  \<^verbatim>\<open>fulfilled\<close> to the demand or removes one batch.
\<close>

theorem C10_fulfill_loop_terminates:
  "loop_iterations d (0, bs) \<le> length bs + 1 \<and>
   \<not> loop_guard d ((loop_body d ^^ loop_iterations d (0, bs)) (0, bs)) \<and>
   (\<forall>j < loop_iterations d (0, bs). loop_guard d ((loop_body d ^^ j) (0, bs))) \<and>
   fulfill_loop d (0, bs) = (loop_body d ^^ loop_iterations d (0, bs)) (0, bs) \<and>
   (\<forall>s. loop_guard d s \<longrightarrow>
      fst (loop_body d s) = d \<or> length (snd (loop_body d s)) + 1 = length (snd s))"
proof (intro conjI allI impI)
  show "loop_iterations d (0, bs) \<le> length bs + 1"
    using loop_iterations_le [of d 0 bs] by simp
  show "\<not> loop_guard d ((loop_body d ^^ loop_iterations d (0, bs)) (0, bs))"
    using fulfill_loop_guard_off [of d "(0, bs)"] by (simp add: fulfill_loop_funpow)
  show "fulfill_loop d (0, bs) = (loop_body d ^^ loop_iterations d (0, bs)) (0, bs)"
    by (rule fulfill_loop_funpow)
next
  fix j assume "j < loop_iterations d (0, bs)"
  then show "loop_guard d ((loop_body d ^^ j) (0, bs))" by (rule loop_guard_before)
next
  fix s assume "loop_guard d s"
  then show "fst (loop_body d s) = d \<or> length (snd (loop_body d s)) + 1 = length (snd s)"
    by (rule loop_body_progress)
qed

text \<open>
  C10, witness: Widget with demand 4 takes two passes.
\<close>

theorem C10_fulfill_loop_terminates_witness:
  "loop_iterations 4 (0, batches widget) = 2 \<and>
   loop_guard 4 (0, batches widget) \<and>
   loop_guard 4 (loop_body 4 (0, batches widget)) \<and>
   \<not> loop_guard 4 (loop_body 4 (loop_body 4 (0, batches widget))) \<and>
   fulfill_loop 4 (0, batches widget) = (4, [\<lparr>quantity = 4, cost_per_unit = 2\<rparr>])"
proof -
  have n: "loop_iterations 4 (0, batches widget) = 2"
    by (simp add: widget_batches loop_iterations.simps loop_guard_def loop_body_def Let_def)
  have two: "(loop_body 4 ^^ 2) (0, batches widget) = (4, [\<lparr>quantity = 4, cost_per_unit = 2\<rparr>])"
    by (simp add: widget_batches loop_body_def Let_def numeral_2_eq_2)
  have g: "loop_guard 4 (0, batches widget)"
    by (simp add: widget_batches loop_guard_def)
  from C10_fulfill_loop_terminates [of 4 "batches widget"] n two g
  show ?thesis
    by (simp add: widget_batches loop_body_def loop_guard_def Let_def)
qed

end
